theory Spec2Isabelle
  imports Main "HOL-Library.Word" "HOL-Library.List_Lexorder"
begin

section \<open>Strings of the runtime\<close>

text \<open>
  A string of the program is a sequence of UTF-16 code units: \<open>length\<close>, \<open>slice\<close>,
  \<open>lastIndexOf\<close>, \<open>includes\<close> and \<open>===\<close> all work on code units.
  \<open>units\<close> writes an ASCII literal as such a sequence.
\<close>

type_synonym code_unit = "16 word"
type_synonym jsstring = "code_unit list"

definition units :: "string \<Rightarrow> jsstring" where
  "units s = map of_char s"

text \<open>
  The white space of \<open>String.prototype.trim\<close> and of the regular expression class
  \<open>\s\<close> (the same set: WhiteSpace and LineTerminator of the language).
\<close>

definition is_space :: "code_unit \<Rightarrow> bool" where
  "is_space c \<longleftrightarrow>
     c = 0x0009 \<or> c = 0x000A \<or> c = 0x000B \<or> c = 0x000C \<or> c = 0x000D \<or> c = 0x0020 \<or>
     c = 0x00A0 \<or> c = 0x1680 \<or> (0x2000 \<le> c \<and> c \<le> 0x200A) \<or> c = 0x2028 \<or>
     c = 0x2029 \<or> c = 0x202F \<or> c = 0x205F \<or> c = 0x3000 \<or> c = 0xFEFF"

definition trimStart :: "jsstring \<Rightarrow> jsstring" where
  "trimStart s = dropWhile is_space s"

definition trimEnd :: "jsstring \<Rightarrow> jsstring" where
  "trimEnd s = rev (dropWhile is_space (rev s))"

definition trim :: "jsstring \<Rightarrow> jsstring" where
  "trim s = trimEnd (trimStart s)"

text \<open>\<open>s.lastIndexOf(c)\<close> for a single code unit; \<open>None\<close> is the result \<open>-1\<close>.\<close>

fun lastIndexOf :: "jsstring \<Rightarrow> code_unit \<Rightarrow> nat option" where
  "lastIndexOf [] c = None"
| "lastIndexOf (x # xs) c =
     (case lastIndexOf xs c of
        Some i \<Rightarrow> Some (Suc i)
      | None \<Rightarrow> (if x = c then Some 0 else None))"

text \<open>\<open>s.includes(q)\<close>: \<open>q\<close> occurs in \<open>s\<close> as a contiguous run of code units.\<close>

fun str_includes :: "jsstring \<Rightarrow> jsstring \<Rightarrow> bool" where
  "str_includes [] q = (q = [])"
| "str_includes (x # xs) q = (take (length q) (x # xs) = q \<or> str_includes xs q)"

text \<open>
  \<open>csv.split(/\r?\n/)\<close>: a line ends at a line feed, and a carriage return right
  before that line feed belongs to the separator. A carriage return elsewhere stays in
  its line. The result always has at least one line.
\<close>

fun split_lines :: "jsstring \<Rightarrow> jsstring list" where
  "split_lines [] = [[]]"
| "split_lines (c # cs) =
     (if c = 0x000A then [] # split_lines cs
      else if c = 0x000D \<and> take 1 cs = [0x000A] then [] # split_lines (drop 1 cs)
      else (case split_lines cs of
              [] \<Rightarrow> [[c]]
            | l # ls \<Rightarrow> (c # l) # ls))"

section \<open>The header test\<close>

text \<open>
  \<open>/^Village\s*,\s*Mandal$/i\<close>. Without the \<open>u\<close> flag, the \<open>i\<close> flag compares the
  upper-case forms of single code units and never lets a code unit outside ASCII match an
  ASCII letter, so a letter of the pattern is matched by its two ASCII forms only:
  \<open>fold_ascii\<close> of both sides agree. Neither \<open>,\<close> nor \<open>M\<close> is white space, so each
  \<open>\s*\<close> takes the whole run of white space and the match is deterministic.
\<close>

definition fold_ascii :: "code_unit \<Rightarrow> code_unit" where
  "fold_ascii c = (if 0x0061 \<le> c \<and> c \<le> 0x007A then c - 0x0020 else c)"

definition same_letters :: "string \<Rightarrow> jsstring \<Rightarrow> bool" where
  "same_letters p s \<longleftrightarrow> map fold_ascii s = map fold_ascii (units p)"

definition header_test :: "jsstring \<Rightarrow> bool" where
  "header_test ln \<longleftrightarrow>
     same_letters ''Village'' (take 7 ln) \<and>
     (case dropWhile is_space (drop 7 ln) of
        [] \<Rightarrow> False
      | c # r \<Rightarrow> c = 0x002C \<and> same_letters ''Mandal'' (dropWhile is_space r))"

section \<open>Parsing the bundled table\<close>

record location =
  village :: jsstring
  mandal :: jsstring

text \<open>The body of the \<open>forEach\<close> of \<open>parseCSV\<close>: the row a line pushes, if any.\<close>

definition parse_line :: "jsstring \<Rightarrow> location option" where
  "parse_line line =
     (let ln = trim line in
      if ln = [] then None
      else if header_test ln then None
      else (case lastIndexOf ln 0x002C of
              None \<Rightarrow> None
            | Some idx \<Rightarrow>
                (let v = trim (take idx ln);
                     m = trim (drop (idx + 1) ln)
                 in if v \<noteq> [] \<and> m \<noteq> [] then Some \<lparr>village = v, mandal = m\<rparr> else None)))"

definition parseCSV :: "jsstring \<Rightarrow> location list" where
  "parseCSV csv = List.map_filter parse_line (split_lines csv)"

section \<open>Case conversion and collation of the runtime\<close>

text \<open>
  \<open>String.prototype.toLowerCase\<close> and \<open>String.prototype.localeCompare\<close> belong to
  the runtime, not to the program: the definitions below take them as the parameters
  \<open>lower\<close> and \<open>cmp\<close>, and the general theorems hold for every choice of them.

  \<open>toLowerCase\<close> is the runtime's function on strings over ASCII and U+0130 (LATIN
  CAPITAL LETTER I WITH DOT ABOVE, which the special casing of Unicode sends to the two
  code units U+0069 U+0307); the other case pairs of the Unicode tables are not
  reproduced. \<open>compare_units\<close> compares code unit by code unit. Both are used for
  concrete evaluations only.
\<close>

definition lower_unit :: "code_unit \<Rightarrow> jsstring" where
  "lower_unit c =
     (if 0x0041 \<le> c \<and> c \<le> 0x005A then [c + 0x0020]
      else if c = 0x0130 then [0x0069, 0x0307]
      else [c])"

definition toLowerCase :: "jsstring \<Rightarrow> jsstring" where
  "toLowerCase s = concat (map lower_unit s)"

definition compare_units :: "jsstring \<Rightarrow> jsstring \<Rightarrow> int" where
  "compare_units a b = (if a < b then - 1 else if a = b then 0 else 1)"

section \<open>Map and Set of the runtime\<close>

text \<open>
  A \<open>Map\<close> keeps its entries in the order in which their keys were first inserted;
  \<open>set\<close> on a key already present replaces the value and keeps the position.
  \<open>new Map(entries)\<close> sets the entries from left to right.
  A \<open>Set\<close> keeps the first occurrence of each element.
\<close>

fun map_set :: "'k \<Rightarrow> 'v \<Rightarrow> ('k \<times> 'v) list \<Rightarrow> ('k \<times> 'v) list" where
  "map_set k v [] = [(k, v)]"
| "map_set k v ((k', v') # m) = (if k' = k then (k, v) # m else (k', v') # map_set k v m)"

definition set_all :: "('k \<times> 'v) list \<Rightarrow> ('k \<times> 'v) list \<Rightarrow> ('k \<times> 'v) list" where
  "set_all entries m = fold (\<lambda>(k, v) m. map_set k v m) entries m"

definition new_Map :: "('k \<times> 'v) list \<Rightarrow> ('k \<times> 'v) list" where
  "new_Map entries = set_all entries []"

definition map_values :: "('k \<times> 'v) list \<Rightarrow> 'v list" where
  "map_values m = map snd m"

definition set_add :: "'a \<Rightarrow> 'a list \<Rightarrow> 'a list" where
  "set_add x s = (if x \<in> set s then s else s @ [x])"

definition new_Set :: "'a list \<Rightarrow> 'a list" where
  "new_Set xs = fold set_add xs []"

text \<open>
  \<open>xs.sort((a, b) => a.localeCompare(b))\<close>: the sort of the language is stable; an
  insertion sort that puts an element before the elements it does not exceed is.
\<close>

fun insert_sorted :: "('a \<Rightarrow> 'a \<Rightarrow> int) \<Rightarrow> 'a \<Rightarrow> 'a list \<Rightarrow> 'a list" where
  "insert_sorted cmp x [] = [x]"
| "insert_sorted cmp x (y # ys) =
     (if cmp x y \<le> 0 then x # y # ys else y # insert_sorted cmp x ys)"

definition array_sort :: "('a \<Rightarrow> 'a \<Rightarrow> int) \<Rightarrow> 'a list \<Rightarrow> 'a list" where
  "array_sort cmp xs = foldr (insert_sorted cmp) xs []"

text \<open>
  The sort of the language orders the array when the comparison function is a consistent
  comparator: any two elements are comparable and the comparison is transitive.
\<close>

definition consistent_comparator :: "('a \<Rightarrow> 'a \<Rightarrow> int) \<Rightarrow> bool" where
  "consistent_comparator cmp \<longleftrightarrow>
     (\<forall>a b. cmp a b \<le> 0 \<or> cmp b a \<le> 0) \<and>
     (\<forall>a b c. cmp a b \<le> 0 \<and> cmp b c \<le> 0 \<longrightarrow> cmp a c \<le> 0)"

section \<open>Building the mapping\<close>

text \<open>The key of a record in the maps of the effect: \<open>r.village.toLowerCase()\<close>.\<close>

definition village_key :: "(jsstring \<Rightarrow> jsstring) \<Rightarrow> location \<Rightarrow> jsstring" where
  "village_key lower r = lower (village r)"

definition entries :: "(jsstring \<Rightarrow> jsstring) \<Rightarrow> location list \<Rightarrow> (jsstring \<times> location) list" where
  "entries lower rows = map (\<lambda>r. (village_key lower r, r)) rows"

text \<open>\<open>Array.from(new Map(local.map((r) => [r.village.toLowerCase(), r])).values())\<close>\<close>

definition uniq :: "(jsstring \<Rightarrow> jsstring) \<Rightarrow> location list \<Rightarrow> location list" where
  "uniq lower local = map_values (new_Map (entries lower local))"

text \<open>
  A field of a remote row: \<open>Falsy\<close> stands for an absent field and for \<open>null\<close>,
  \<open>false\<close>, \<open>0\<close> and \<open>NaN\<close>; \<open>Str s\<close> is the string \<open>s\<close>; \<open>Other s\<close> is any
  other value, \<open>s\<close> being what \<open>String\<close> makes of it. An element of the array that
  is \<open>null\<close> or \<open>undefined\<close> is \<open>Nullish\<close>: reading a field of it throws.
\<close>

datatype js_value = Falsy | Str jsstring | Other jsstring

datatype remote_row = Nullish | Row js_value js_value

datatype js_error = TypeError | Rejected

datatype remote_data = NotArray | Rows "remote_row list"

text \<open>
  What \<open>await supabase.from(...).select(...)\<close> does: it throws, or it gives
  \<open>{ data, error }\<close>, of which the code reads whether \<open>error\<close> is truthy and
  whether \<open>data\<close> is an array.
\<close>

datatype fetch_outcome = Throws | Resolved bool remote_data

text \<open>\<open>String(v || "")\<close>\<close>

fun string_or_empty :: "js_value \<Rightarrow> jsstring" where
  "string_or_empty Falsy = []"
| "string_or_empty (Str s) = s"
| "string_or_empty (Other s) = s"

fun normalise_row :: "remote_row \<Rightarrow> js_error + location" where
  "normalise_row Nullish = Inl TypeError"
| "normalise_row (Row v m) =
     Inr \<lparr>village = trim (string_or_empty v), mandal = trim (string_or_empty m)\<rparr>"

fun normalise_rows :: "remote_row list \<Rightarrow> js_error + location list" where
  "normalise_rows [] = Inr []"
| "normalise_rows (r # rs) =
     (case normalise_row r of
        Inl e \<Rightarrow> Inl e
      | Inr l \<Rightarrow> (case normalise_rows rs of Inl e \<Rightarrow> Inl e | Inr ls \<Rightarrow> Inr (l # ls)))"

text \<open>The two \<open>for\<close> loops over \<open>local\<close> and \<open>supa\<close> and \<open>Array.from(map.values())\<close>.\<close>

definition merged :: "(jsstring \<Rightarrow> jsstring) \<Rightarrow> location list \<Rightarrow> location list \<Rightarrow> location list" where
  "merged lower local supa =
     map_values (set_all (entries lower supa) (set_all (entries lower local) []))"

text \<open>The body of the \<open>try\<close>: the value it passes to \<open>setMapping\<close>, or what it throws.\<close>

definition try_body ::
  "(jsstring \<Rightarrow> jsstring) \<Rightarrow> location list \<Rightarrow> fetch_outcome \<Rightarrow> js_error + location list" where
  "try_body lower local outcome =
     (case outcome of
        Throws \<Rightarrow> Inl Rejected
      | Resolved error data \<Rightarrow>
          (case (case data of
                   Rows rs \<Rightarrow> (if \<not> error then normalise_rows rs else Inr [])
                 | NotArray \<Rightarrow> Inr []) of
             Inl e \<Rightarrow> Inl e
           | Inr supa \<Rightarrow> Inr (merged lower local supa)))"

text \<open>
  The effect after \<open>parseCSV\<close>: the value passed to \<open>setMapping\<close> (\<open>Inr\<close>), or the
  exception that leaves the effect (\<open>Inl\<close>).
\<close>

definition build_mapping ::
  "(jsstring \<Rightarrow> jsstring) \<Rightarrow> bool \<Rightarrow> location list \<Rightarrow> fetch_outcome \<Rightarrow> js_error + location list" where
  "build_mapping lower hasSupabaseEnv local outcome =
     (if \<not> hasSupabaseEnv then Inr (uniq lower local)
      else (case try_body lower local outcome of
              Inr m \<Rightarrow> Inr m
            | Inl err \<Rightarrow> Inr (uniq lower local)))"

definition load_mapping ::
  "(jsstring \<Rightarrow> jsstring) \<Rightarrow> bool \<Rightarrow> jsstring \<Rightarrow> fetch_outcome \<Rightarrow> js_error + location list" where
  "load_mapping lower hasSupabaseEnv villagesCSV outcome =
     build_mapping lower hasSupabaseEnv (parseCSV villagesCSV) outcome"

section \<open>The dependent selection lists\<close>

text \<open>The state of the component that the village and mandal widgets read and write.\<close>

record form_state =
  form_village :: "jsstring option"
  form_mandal :: "jsstring option"
  villageFilter :: jsstring
  mandalFilter :: jsstring
  manualMode :: bool
  manualVillage :: jsstring
  manualMandal :: jsstring

text \<open>\<open>v || ""\<close> and \<open>v ?? ""\<close> on a form value that is a string, \<open>null\<close> or absent.\<close>

fun or_empty :: "jsstring option \<Rightarrow> jsstring" where
  "or_empty None = []"
| "or_empty (Some s) = s"

text \<open>\<open>_mandals\<close> and \<open>filteredMandals\<close>\<close>

definition mandals :: "(jsstring \<Rightarrow> jsstring \<Rightarrow> int) \<Rightarrow> location list \<Rightarrow> jsstring list" where
  "mandals cmp mapping = array_sort cmp (new_Set (filter (\<lambda>m. m \<noteq> []) (map mandal mapping)))"

definition filteredMandals ::
  "(jsstring \<Rightarrow> jsstring) \<Rightarrow> (jsstring \<Rightarrow> jsstring \<Rightarrow> int) \<Rightarrow> location list \<Rightarrow> jsstring \<Rightarrow> jsstring list" where
  "filteredMandals lower cmp mapping mFilter =
     (if length (trim mFilter) \<ge> 2
      then filter (\<lambda>m. str_includes (lower m) (lower (trim mFilter))) (mandals cmp mapping)
      else mandals cmp mapping)"

definition selectedMandal :: "form_state \<Rightarrow> jsstring" where
  "selectedMandal st = trim (or_empty (form_mandal st))"

definition villagesSource :: "location list \<Rightarrow> jsstring \<Rightarrow> jsstring list" where
  "villagesSource mapping sel =
     (if sel \<noteq> [] then map village (filter (\<lambda>r. mandal r = sel) mapping)
      else map village mapping)"

text \<open>\<open>_villages\<close> and \<open>filteredVillages\<close>\<close>

definition villages :: "(jsstring \<Rightarrow> jsstring \<Rightarrow> int) \<Rightarrow> location list \<Rightarrow> jsstring \<Rightarrow> jsstring list" where
  "villages cmp mapping sel =
     array_sort cmp (new_Set (filter (\<lambda>v. v \<noteq> []) (villagesSource mapping sel)))"

definition filteredVillages ::
  "(jsstring \<Rightarrow> jsstring) \<Rightarrow> (jsstring \<Rightarrow> jsstring \<Rightarrow> int) \<Rightarrow> location list \<Rightarrow> jsstring \<Rightarrow> jsstring \<Rightarrow> jsstring list" where
  "filteredVillages lower cmp mapping sel vFilter =
     (let q = lower (trim vFilter) in
      if length q \<ge> 3 then filter (\<lambda>v. str_includes (lower v) q) (villages cmp mapping sel)
      else if sel \<noteq> [] then villages cmp mapping sel
      else [])"

text \<open>
  The condition of the hint under the village list:
  \<open>villageFilter.trim().length >= 3 && filteredVillages.length === 0\<close>.
\<close>

definition no_match_hint ::
  "(jsstring \<Rightarrow> jsstring) \<Rightarrow> (jsstring \<Rightarrow> jsstring \<Rightarrow> int) \<Rightarrow> location list \<Rightarrow> jsstring \<Rightarrow> jsstring \<Rightarrow> bool" where
  "no_match_hint lower cmp mapping sel vFilter \<longleftrightarrow>
     length (trim vFilter) \<ge> 3 \<and> length (filteredVillages lower cmp mapping sel vFilter) = 0"

section \<open>The event handlers\<close>

definition other_option :: jsstring where
  "other_option = units ''__other__''"

text \<open>\<open>mapping.find((r) => r.village === v)\<close> and the mandal it gives, \<open>""\<close> if none.\<close>

definition find_village :: "location list \<Rightarrow> jsstring \<Rightarrow> location option" where
  "find_village mapping v = find (\<lambda>r. village r = v) mapping"

text \<open>\<open>onChange\<close> of the mandal \<open>select\<close>\<close>

definition mandal_onChange :: "jsstring \<Rightarrow> form_state \<Rightarrow> form_state" where
  "mandal_onChange m st =
     (if m = other_option
      then st\<lparr>manualMode := True, form_mandal := Some [], manualMandal := []\<rparr>
      else st\<lparr>form_mandal := Some m, form_village := Some [], villageFilter := [],
              manualMode := False\<rparr>)"

text \<open>\<open>onChange\<close> of the village \<open>select\<close>\<close>

definition village_onChange :: "location list \<Rightarrow> jsstring \<Rightarrow> form_state \<Rightarrow> form_state" where
  "village_onChange mapping v st =
     (if v = other_option
      then st\<lparr>manualMode := True, form_village := Some [], form_mandal := Some [],
              manualVillage := [], manualMandal := []\<rparr>
      else st\<lparr>form_village := Some v,
              form_mandal := Some (case find_village mapping v of
                                     Some rec \<Rightarrow> mandal rec
                                   | None \<Rightarrow> []),
              manualMode := False\<rparr>)"

text \<open>\<open>onChange\<close> of the two manual inputs and \<open>onClick\<close> of Cancel\<close>

definition manualVillage_onChange :: "jsstring \<Rightarrow> form_state \<Rightarrow> form_state" where
  "manualVillage_onChange s st = st\<lparr>manualVillage := s, form_village := Some s\<rparr>"

definition manualMandal_onChange :: "jsstring \<Rightarrow> form_state \<Rightarrow> form_state" where
  "manualMandal_onChange s st = st\<lparr>manualMandal := s, form_mandal := Some s\<rparr>"

definition cancel_onClick :: "form_state \<Rightarrow> form_state" where
  "cancel_onClick st = st\<lparr>manualMode := False, manualVillage := [], manualMandal := []\<rparr>"

text \<open>
  \<open>onBlur\<close> of the plain village input; the input is rendered when
  \<open>mapping.length > 0\<close> is false.
\<close>

definition dropdowns_rendered :: "location list \<Rightarrow> bool" where
  "dropdowns_rendered mapping \<longleftrightarrow> length mapping > 0"

definition village_onBlur :: "location list \<Rightarrow> jsstring \<Rightarrow> form_state \<Rightarrow> form_state" where
  "village_onBlur mapping val st =
     (if val \<noteq> [] \<and> length mapping \<noteq> 0
      then st\<lparr>form_mandal := Some (case find_village mapping val of
                                      Some rec \<Rightarrow> mandal rec
                                    | None \<Rightarrow> or_empty (form_mandal st))\<rparr>
      else st)"

section \<open>The parse and the deduplication in the words of the specification\<close>

text \<open>
  The parse in the words of the specification. The lines of a text are the pieces
  between its line feeds: joined with line feeds they give the text back, and none holds
  a line feed. The blank (white space only) lines and the header lines are skipped; every
  other line is split at its last comma; both parts are trimmed; the row is dropped when a
  trimmed part is empty. A line with no comma has no last comma and gives no row.
\<close>

fun lf_lines :: "jsstring \<Rightarrow> jsstring list" where
  "lf_lines [] = [[]]"
| "lf_lines (c # cs) =
     (if c = 0x000A then [] # lf_lines cs
      else (case lf_lines cs of
              [] \<Rightarrow> [[c]]
            | l # ls \<Rightarrow> (c # l) # ls))"

fun join_lines :: "jsstring list \<Rightarrow> jsstring" where
  "join_lines [] = []"
| "join_lines [l] = l"
| "join_lines (l # l' # ls) = l @ [0x000A] @ join_lines (l' # ls)"

text \<open>A line less the carriage return at its end, if it has one.\<close>

definition chop_CR :: "jsstring \<Rightarrow> jsstring" where
  "chop_CR l = (if l \<noteq> [] \<and> last l = 0x000D then butlast l else l)"

definition blank_line :: "jsstring \<Rightarrow> bool" where
  "blank_line l \<longleftrightarrow> list_all is_space l"

definition split_last_comma :: "jsstring \<Rightarrow> (jsstring \<times> jsstring) option" where
  "split_last_comma l =
     (let b = rev (takeWhile (\<lambda>c. c \<noteq> 0x002C) (rev l)) in
      if length b = length l then None
      else Some (take (length l - length b - 1) l, b))"

definition spec_row :: "jsstring \<Rightarrow> location option" where
  "spec_row l =
     (case split_last_comma l of
        None \<Rightarrow> None
      | Some (a, b) \<Rightarrow>
          (if trim a \<noteq> [] \<and> trim b \<noteq> [] then Some \<lparr>village = trim a, mandal = trim b\<rparr>
           else None))"

text \<open>
  The header as the specification names it: a line that, white space at its two ends
  apart, is the text \<open>Village, Mandal\<close> in any letter case.
\<close>

definition literal_header_line :: "jsstring \<Rightarrow> bool" where
  "literal_header_line l \<longleftrightarrow> same_letters ''Village, Mandal'' (trim l)"

definition stated_parse :: "jsstring \<Rightarrow> location list" where
  "stated_parse csv =
     List.map_filter spec_row
       (filter (\<lambda>l. \<not> blank_line l \<and> \<not> literal_header_line l) (lf_lines csv))"

text \<open>
  The header with any white space, or none, on either side of its comma: a line that,
  white space at its two ends apart, is the word Village, white space, a comma, white
  space, and the word Mandal, in any letter case.
\<close>

definition header_line :: "jsstring \<Rightarrow> bool" where
  "header_line l \<longleftrightarrow>
     (\<exists>a v b c m d. l = a @ v @ b @ [0x002C] @ c @ m @ d \<and>
        list_all is_space a \<and> list_all is_space b \<and> list_all is_space c \<and> list_all is_space d \<and>
        same_letters ''Village'' v \<and> same_letters ''Mandal'' m)"

definition spec_parse :: "jsstring \<Rightarrow> location list" where
  "spec_parse csv =
     List.map_filter spec_row
       (filter (\<lambda>l. \<not> blank_line l \<and> \<not> header_line l) (lf_lines csv))"

text \<open>
  "Deduplicate the local rows by lower-cased village (first occurrence wins)": a row is
  kept unless an earlier row has its key.
\<close>

definition dedup_first_wins :: "(jsstring \<Rightarrow> jsstring) \<Rightarrow> location list \<Rightarrow> location list" where
  "dedup_first_wins lower rows =
     fold (\<lambda>r acc. if village_key lower r \<in> village_key lower ` set acc then acc else acc @ [r])
       rows []"

section \<open>Concrete data used in the evaluations\<close>

definition kadapa_mapping :: "location list" where
  "kadapa_mapping =
     [\<lparr>village = units ''Anantapur'', mandal = units ''Anantapur M''\<rparr>,
      \<lparr>village = units ''Kadapa'', mandal = units ''Kadapa M''\<rparr>]"

definition initial_state :: form_state where
  "initial_state =
     \<lparr>form_village = Some [], form_mandal = Some [], villageFilter = [], mandalFilter = [],
      manualMode = False, manualVillage = [], manualMandal = []\<rparr>"

definition kadapa_selected :: form_state where
  "kadapa_selected = village_onChange kadapa_mapping (units ''Kadapa'') initial_state"

definition kadapa_twice :: "location list" where
  "kadapa_twice =
     [\<lparr>village = units ''Kadapa'', mandal = units ''Kadapa M''\<rparr>,
      \<lparr>village = units ''kadapa'', mandal = units ''Other M''\<rparr>]"

definition kadapa_local :: "location list" where
  "kadapa_local = [\<lparr>village = units ''Kadapa'', mandal = units ''Kadapa M''\<rparr>]"

definition kadapa_remote :: "remote_row list" where
  "kadapa_remote = [Row (Str (units ''Kadapa'')) (Str (units ''Kadapa New M''))]"

definition kadapa_remote_upper :: "remote_row list" where
  "kadapa_remote_upper = [Row (Str (units ''KADAPA'')) (Str (units ''Kadapa New M''))]"

definition table_csv :: jsstring where
  "table_csv =
     units ''Village, Mandal'' @ [0x000D, 0x000A] @
     units ''Anantapur,Anantapur M'' @ [0x000D, 0x000A] @
     [0x000A] @
     units ''A, B Village,X Mandal'' @ [0x000A] @
     units ''no comma here'' @ [0x000A] @
     units '' Kadapa , Kadapa M ''"

definition kadapa_csv :: jsstring where
  "kadapa_csv = units ''Village, Mandal'' @ [0x000D, 0x000A] @ units ''Kadapa,Kadapa M'' @ [0x000A]"

definition nameless_remote :: "remote_row list" where
  "nameless_remote = [Row Falsy (Str (units ''Kadapa M''))]"

section \<open>The handlers of the two widgets\<close>

lemma units_simps:
  "units [] = []"
  "units (c # cs) = of_char c # units cs"
  by (simp_all add: units_def)

lemma find_village_exact:
  "find_village mapping v = Some r \<Longrightarrow> r \<in> set mapping \<and> village r = v"
  by (auto simp: find_village_def find_Some_iff)

lemma find_village_none:
  "find_village mapping v = None \<longleftrightarrow> (\<forall>r \<in> set mapping. village r \<noteq> v)"
  by (auto simp: find_village_def find_None_iff)

lemma kadapa_selected_eq:
  "kadapa_selected =
     \<lparr>form_village = Some (units ''Kadapa''), form_mandal = Some (units ''Kadapa M''),
      villageFilter = [], mandalFilter = [], manualMode = False, manualVillage = [],
      manualMandal = []\<rparr>"
  by (simp add: kadapa_selected_def village_onChange_def other_option_def units_simps
      find_village_def kadapa_mapping_def initial_state_def)

text \<open>
  C10. While the plain village input is shown, that is while the mapping has no record,
  its blur handler changes nothing: the mandal value, and the whole state, stay as they
  are, whatever was typed.
\<close>

theorem village_onBlur_empty_mapping:
  "\<not> dropdowns_rendered mapping \<Longrightarrow>
     village_onBlur mapping val st = st \<and>
     form_mandal (village_onBlur mapping val st) = form_mandal st"
  by (simp add: dropdowns_rendered_def village_onBlur_def)

theorem village_onBlur_empty_mapping_witness:
  "\<not> dropdowns_rendered [] \<and>
   form_mandal (village_onBlur [] (units ''Kadapa'') (initial_state\<lparr>form_mandal := Some (units ''Typed M'')\<rparr>))
     = Some (units ''Typed M'')"
  using village_onBlur_empty_mapping [of "[]" "units ''Kadapa''"
      "initial_state\<lparr>form_mandal := Some (units ''Typed M'')\<rparr>"]
  by (simp add: dropdowns_rendered_def initial_state_def)

lemma village_other_clears_both:
  "form_village (village_onChange mapping other_option st) = Some [] \<and>
   form_mandal (village_onChange mapping other_option st) = Some [] \<and>
   manualMode (village_onChange mapping other_option st)"
  by (simp add: village_onChange_def)

lemma mandal_other_keeps_form_village:
  "form_village (mandal_onChange other_option st) = form_village st \<and>
   form_mandal (mandal_onChange other_option st) = Some [] \<and>
   manualMode (mandal_onChange other_option st)"
  by (simp add: mandal_onChange_def)

lemma cancel_clears_manual_fields:
  "manualVillage (cancel_onClick st) = [] \<and> manualMandal (cancel_onClick st) = [] \<and>
   \<not> manualMode (cancel_onClick st) \<and>
   form_village (cancel_onClick st) = form_village st \<and>
   form_mandal (cancel_onClick st) = form_mandal st"
  by (simp add: cancel_onClick_def)

text \<open>
  C7. With the village Kadapa and its mandal selected, choosing "Other" in the mandal
  list enters manual mode and empties the mandal, but the village value of the form is
  still Kadapa. The "Other" option of the village list empties both
  (\<open>village_other_clears_both\<close>); Cancel empties the two manual texts and leaves the
  form values as they are (\<open>cancel_clears_manual_fields\<close>).
\<close>

theorem mandal_other_leaves_village_selected:
  "manualMode (mandal_onChange other_option kadapa_selected) \<and>
   form_mandal (mandal_onChange other_option kadapa_selected) = Some [] \<and>
   form_village (mandal_onChange other_option kadapa_selected) = Some (units ''Kadapa'') \<and>
   form_village (mandal_onChange other_option kadapa_selected) \<noteq> Some []"
  by (simp add: kadapa_selected_eq mandal_onChange_def units_simps)

text \<open>
  C6, as stated, fails: after Kadapa is selected, choosing the mandal Anantapur M in the
  mandal list changes the village value, which becomes empty.
\<close>

theorem mandal_change_alters_village:
  "form_village kadapa_selected = Some (units ''Kadapa'') \<and>
   form_village (mandal_onChange (units ''Anantapur M'') kadapa_selected)
     \<noteq> form_village kadapa_selected"
  by (simp add: kadapa_selected_eq mandal_onChange_def other_option_def units_simps)

text \<open>
  C6, amended. Selecting a village \<open>v\<close> in the village list sets the village to \<open>v\<close>
  and the mandal to the mandal of the first record of the mapping whose village is
  exactly \<open>v\<close>, or to the empty string when there is none. No change of the mandal
  derives a village from the mapping: choosing a mandal \<open>m\<close> in the mandal list sets the
  mandal to \<open>m\<close> and resets the village and the village filter to the empty string, and
  typing a mandal by hand leaves the village as it is.
\<close>

theorem village_select_fills_mandal:
  assumes "v \<noteq> other_option" and "m \<noteq> other_option"
    and "st' = village_onChange mapping v st"
  shows "form_village st' = Some v \<and>
         form_mandal st' =
           Some (case find (\<lambda>r. village r = v) mapping of Some r \<Rightarrow> mandal r | None \<Rightarrow> []) \<and>
         form_village (mandal_onChange m st') = Some [] \<and>
         villageFilter (mandal_onChange m st') = [] \<and>
         form_mandal (mandal_onChange m st') = Some m \<and>
         form_village (manualMandal_onChange s st') = Some v"
  using assms
  by (simp add: village_onChange_def mandal_onChange_def manualMandal_onChange_def
      find_village_def)

theorem village_select_fills_mandal_witness:
  "units ''Kadapa'' \<noteq> other_option \<and> units ''Anantapur M'' \<noteq> other_option \<and>
   form_village kadapa_selected = Some (units ''Kadapa'') \<and>
   form_mandal kadapa_selected = Some (units ''Kadapa M'') \<and>
   form_village (mandal_onChange (units ''Anantapur M'') kadapa_selected) = Some [] \<and>
   form_mandal (mandal_onChange (units ''Anantapur M'') kadapa_selected)
     = Some (units ''Anantapur M'') \<and>
   form_village (manualMandal_onChange (units ''X'') kadapa_selected) = Some (units ''Kadapa'')"
proof -
  have v: "units ''Kadapa'' \<noteq> other_option" and m: "units ''Anantapur M'' \<noteq> other_option"
    by (simp_all add: other_option_def units_simps)
  show ?thesis
    using v m village_select_fills_mandal [OF v m kadapa_selected_def, of "units ''X''"]
    by (simp add: kadapa_mapping_def units_simps)
qed

section \<open>The keyed mapping\<close>


lemma map_of_map_set: "map_of (map_set k v m) = (map_of m)(k \<mapsto> v)"
  by (induction m) (auto simp: fun_eq_iff)

lemma keys_map_set: "map fst (map_set k v m) = set_add k (map fst m)"
  by (induction m) (force simp: set_add_def)+

lemma map_of_set_all: "map_of (set_all es m) = map_of m ++ map_of (rev es)"
  unfolding set_all_def
proof (induction es arbitrary: m)
  case Nil
  then show ?case by simp
next
  case (Cons e es)
  obtain k v where e: "e = (k, v)" by (cases e)
  have "map_of (fold (\<lambda>(k, v). map_set k v) es (map_set k v m))
      = map_of (map_set k v m) ++ map_of (rev es)"
    by (rule Cons.IH)
  also have "\<dots> = map_of m ++ map_of (rev es @ [(k, v)])"
    by (simp add: map_of_map_set fun_eq_iff map_add_def split: option.splits)
  finally show ?case by (simp add: e)
qed

lemma keys_set_all: "map fst (set_all es m) = fold set_add (map fst es) (map fst m)"
  unfolding set_all_def
  by (induction es arbitrary: m) (auto simp: keys_map_set)

lemma set_fold_set_add: "set (fold set_add xs acc) = set acc \<union> set xs"
  by (induction xs arbitrary: acc) (auto simp: set_add_def)

lemma distinct_fold_set_add: "distinct acc \<Longrightarrow> distinct (fold set_add xs acc)"
  by (induction xs arbitrary: acc) (auto simp: set_add_def)

lemma distinct_new_Set: "distinct (new_Set xs)"
  by (simp add: new_Set_def distinct_fold_set_add)

lemma set_new_Set: "set (new_Set xs) = set xs"
  by (simp add: new_Set_def set_fold_set_add)

lemma keys_new_Map: "map fst (new_Map es) = new_Set (map fst es)"
  by (simp add: new_Map_def new_Set_def keys_set_all)

lemma map_of_new_Map: "map_of (new_Map es) = map_of (rev es)"
  by (simp add: new_Map_def map_of_set_all)

lemma fold_set_add_distinct: "distinct (acc @ xs) \<Longrightarrow> fold set_add xs acc = acc @ xs"
  by (induction xs arbitrary: acc) (auto simp: set_add_def)

lemma new_Set_distinct_id: "distinct xs \<Longrightarrow> new_Set xs = xs"
  by (simp add: new_Set_def fold_set_add_distinct)


lemma set_map_set: "set (map_set k v m) \<subseteq> insert (k, v) (set m)"
  by (induction m) (auto split: if_splits)

lemma set_set_all: "set (set_all es m) \<subseteq> set m \<union> set es"
  unfolding set_all_def
proof (induction es arbitrary: m)
  case Nil
  then show ?case by simp
next
  case (Cons e es)
  obtain k v where e: "e = (k, v)" by (cases e)
  have "set (fold (\<lambda>(k, v). map_set k v) es (map_set k v m)) \<subseteq> set (map_set k v m) \<union> set es"
    by (rule Cons.IH)
  with set_map_set [of k v m] show ?case by (auto simp: e)
qed

lemma find_key_values:
  "\<forall>(k, r) \<in> set m. f r = k \<Longrightarrow> find (\<lambda>r. f r = k) (map_values m) = map_of m k"
  by (induction m) (auto simp: map_values_def)

lemma keys_of_values:
  "\<forall>(k, r) \<in> set m. f r = k \<Longrightarrow> map f (map_values m) = map fst m"
  by (induction m) (auto simp: map_values_def)

lemma map_of_entries:
  "map_of (rev (entries lower rows)) k = find (\<lambda>r. village_key lower r = k) (rev rows)"
  by (induction rows rule: rev_induct) (auto simp: entries_def)

lemma entries_keyed: "\<forall>(k, r) \<in> set (entries lower rows). village_key lower r = k"
  by (auto simp: entries_def)

lemma keys_entries: "map fst (entries lower rows) = map (village_key lower) rows"
  by (simp add: entries_def)

lemma merged_map_keyed:
  "\<forall>(k, r) \<in> set (set_all (entries lower supa) (set_all (entries lower local) [])).
     village_key lower r = k"
proof -
  have "set (set_all (entries lower supa) (set_all (entries lower local) []))
          \<subseteq> set (entries lower local) \<union> set (entries lower supa)"
    using set_set_all [of "entries lower supa" "set_all (entries lower local) []"]
      set_set_all [of "entries lower local" "[]"]
    by auto
  then show ?thesis
    by (auto simp: entries_def)
qed

lemma merged_keys:
  "map (village_key lower) (merged lower local supa)
     = new_Set (map (village_key lower) (local @ supa))"
  by (simp add: merged_def keys_of_values [OF merged_map_keyed] keys_set_all keys_entries
      new_Set_def)

lemma merged_find:
  "find (\<lambda>r. village_key lower r = k) (merged lower local supa) =
     (case find (\<lambda>r. village_key lower r = k) (rev supa) of
        Some r \<Rightarrow> Some r
      | None \<Rightarrow> find (\<lambda>r. village_key lower r = k) (rev local))"
  by (simp add: merged_def find_key_values [OF merged_map_keyed] map_of_set_all map_of_entries
      map_add_def split: option.splits)

lemma merged_no_remote: "merged lower local [] = uniq lower local"
  by (simp add: merged_def uniq_def new_Map_def entries_def set_all_def)

lemma uniq_keys: "map (village_key lower) (uniq lower local) = new_Set (map (village_key lower) local)"
  using merged_keys [of lower local "[]"] by (simp add: merged_no_remote)

lemma uniq_find:
  "find (\<lambda>r. village_key lower r = k) (uniq lower local)
     = find (\<lambda>r. village_key lower r = k) (rev local)"
  using merged_find [of lower k local "[]"] by (simp add: merged_no_remote)



lemma map_set_fresh: "k \<notin> fst ` set m \<Longrightarrow> map_set k v m = m @ [(k, v)]"
  by (induction m) auto

lemma set_all_distinct: "distinct (map fst (m @ es)) \<Longrightarrow> set_all es m = m @ es"
  unfolding set_all_def
proof (induction es arbitrary: m)
  case Nil
  then show ?case by simp
next
  case (Cons e es)
  obtain k v where e: "e = (k, v)" by (cases e)
  from Cons.prems have fresh: "k \<notin> fst ` set m" and d: "distinct (map fst ((m @ [(k, v)]) @ es))"
    by (auto simp: e)
  from Cons.IH [OF d] show ?case
    by (simp add: e map_set_fresh [OF fresh])
qed

lemma uniq_distinct_keys:
  assumes "distinct (map (village_key lower) local)"
  shows "uniq lower local = local"
proof -
  have "distinct (map fst ([] @ entries lower local))"
    using assms by (simp add: keys_entries)
  then have "new_Map (entries lower local) = entries lower local"
    unfolding new_Map_def by (simp add: set_all_distinct)
  then show ?thesis
    by (simp add: uniq_def map_values_def entries_def comp_def)
qed

lemma set_merged: "set (merged lower local supa) \<subseteq> set local \<union> set supa"
proof -
  have "set (set_all (entries lower supa) (set_all (entries lower local) []))
          \<subseteq> set (entries lower local) \<union> set (entries lower supa)"
    using set_set_all [of "entries lower supa" "set_all (entries lower local) []"]
      set_set_all [of "entries lower local" "[]"]
    by auto
  then show ?thesis
    by (auto simp: merged_def map_values_def entries_def)
qed

lemma set_uniq: "set (uniq lower local) \<subseteq> set local"
  using set_merged [of lower local "[]"] by (simp add: merged_no_remote)

lemma build_mapping_local_only:
  "\<not> hasSupabaseEnv \<or> outcome = Throws \<Longrightarrow>
     build_mapping lower hasSupabaseEnv local outcome = Inr (uniq lower local)"
  by (auto simp: build_mapping_def try_body_def)




lemma build_mapping_success:
  "normalise_rows rs = Inr supa \<Longrightarrow>
     build_mapping lower True local (Resolved False (Rows rs)) = Inr (merged lower local supa)"
  by (simp add: build_mapping_def try_body_def)

lemmas eval_simps = units_simps village_key_def toLowerCase_def lower_unit_def

text \<open>
  C2, as stated, fails: of two local rows with the same lower-cased village the mapping
  keeps the second one (at the place of the first), with no remote source as well as
  after a fetch that throws; keeping the first occurrence gives another list.
\<close>

theorem local_dedup_keeps_last_occurrence:
  "build_mapping toLowerCase False kadapa_twice Throws
     = Inr [\<lparr>village = units ''kadapa'', mandal = units ''Other M''\<rparr>] \<and>
   build_mapping toLowerCase True kadapa_twice Throws
     = Inr [\<lparr>village = units ''kadapa'', mandal = units ''Other M''\<rparr>] \<and>
   dedup_first_wins toLowerCase kadapa_twice
     = [\<lparr>village = units ''Kadapa'', mandal = units ''Kadapa M''\<rparr>] \<and>
   build_mapping toLowerCase False kadapa_twice Throws
     \<noteq> Inr (dedup_first_wins toLowerCase kadapa_twice)"
  by (simp add: build_mapping_def try_body_def uniq_def new_Map_def set_all_def entries_def
      map_values_def dedup_first_wins_def kadapa_twice_def eval_simps)

text \<open>
  C2, amended. When no remote source is configured, and likewise when the fetch throws,
  the mapping is the local rows deduplicated by lower-cased village name: one record for
  each key, the keys in the order of their first occurrences, and the record of a key is
  its last occurrence among the local rows. When the keys of the local rows differ from
  one another the mapping is the local row list itself, as for the rows
  (Anantapur, Anantapur M), (Kadapa, Kadapa M).
\<close>

theorem local_only_mapping:
  assumes "\<not> hasSupabaseEnv \<or> outcome = Throws"
  shows "build_mapping lower hasSupabaseEnv local outcome = Inr (uniq lower local) \<and>
         map (village_key lower) (uniq lower local) = new_Set (map (village_key lower) local) \<and>
         distinct (map (village_key lower) (uniq lower local)) \<and>
         set (map (village_key lower) (uniq lower local)) = set (map (village_key lower) local) \<and>
         (\<forall>k. find (\<lambda>r. village_key lower r = k) (uniq lower local)
                = find (\<lambda>r. village_key lower r = k) (rev local)) \<and>
         (distinct (map (village_key lower) local) \<longrightarrow> uniq lower local = local)"
  using assms
  by (simp add: build_mapping_local_only uniq_keys distinct_new_Set set_new_Set uniq_find
      uniq_distinct_keys del: set_map)

theorem local_only_mapping_witness:
  "build_mapping toLowerCase False kadapa_mapping Throws = Inr kadapa_mapping \<and>
   build_mapping toLowerCase True kadapa_mapping Throws = Inr kadapa_mapping \<and>
   kadapa_mapping =
     [\<lparr>village = units ''Anantapur'', mandal = units ''Anantapur M''\<rparr>,
      \<lparr>village = units ''Kadapa'', mandal = units ''Kadapa M''\<rparr>]"
proof -
  have d: "distinct (map (village_key toLowerCase) kadapa_mapping)"
    by (simp add: kadapa_mapping_def eval_simps)
  show ?thesis
    using d local_only_mapping [of False Throws toLowerCase kadapa_mapping]
      local_only_mapping [of True Throws toLowerCase kadapa_mapping]
    by (simp add: kadapa_mapping_def)
qed


lemma trim_units_Kadapa: "trim (units ''Kadapa'') = units ''Kadapa''"
  "trim (units ''Kadapa New M'') = units ''Kadapa New M''"
  by (simp_all add: trim_def trimStart_def trimEnd_def is_space_def units_simps)

lemma find_distinct_key:
  "distinct (map f xs) \<Longrightarrow> r \<in> set xs \<Longrightarrow> find (\<lambda>x. f x = f r) xs = Some r"
  by (induction xs) (auto simp: image_iff)

lemma find_Some_in_set: "find P xs = Some x \<Longrightarrow> x \<in> set xs \<and> P x"
  by (induction xs) (auto split: if_splits)

lemma merged_lower_keys:
  "map (\<lambda>r. lower (village r)) (merged lower local supa)
     = new_Set (map (\<lambda>r. lower (village r)) (local @ supa))"
  by (rule merged_keys [of lower local supa, unfolded village_key_def [abs_def]])

lemma merged_lower_find:
  "find (\<lambda>r. lower (village r) = k) (merged lower local supa) =
     (case find (\<lambda>r. lower (village r) = k) (rev supa) of
        Some r \<Rightarrow> Some r
      | None \<Rightarrow> find (\<lambda>r. lower (village r) = k) (rev local))"
  by (rule merged_find [of lower k local supa, unfolded village_key_def])

lemma merged_members:
  assumes "r \<in> set (merged lower local supa)"
  shows "r \<in> set supa \<or>
         r \<in> set local \<and> lower (village r) \<notin> (\<lambda>s. lower (village s)) ` set supa"
proof -
  have "distinct (map (\<lambda>r. lower (village r)) (merged lower local supa))"
    by (simp add: merged_lower_keys distinct_new_Set)
  from find_distinct_key [OF this assms]
  have f: "find (\<lambda>x. lower (village x) = lower (village r)) (merged lower local supa) = Some r" .
  show ?thesis
  proof (cases "find (\<lambda>x. lower (village x) = lower (village r)) (rev supa)")
    case None
    then have "lower (village r) \<notin> (\<lambda>s. lower (village s)) ` set supa"
      by (auto simp: find_None_iff)
    moreover from f None have "find (\<lambda>x. lower (village x) = lower (village r)) (rev local) = Some r"
      by (simp add: merged_lower_find)
    then have "r \<in> set local" by (auto dest: find_Some_in_set)
    ultimately show ?thesis by simp
  next
    case (Some s)
    with f have "s = r" by (simp add: merged_lower_find)
    with Some show ?thesis by (auto dest: find_Some_in_set)
  qed
qed

text \<open>
  C1. After a successful fetch, whose rows normalise to \<open>supa\<close>, the mapping is keyed by
  the lower-cased village name \<open>lower (village r)\<close>: each lower-cased village of the
  local and remote rows occurs once, in the order of first insertion, local rows before
  remote rows; the record of a key is the last remote row with that lower-cased village
  if there is one, and otherwise the last local row with it. So every record of the
  mapping is a remote row, or a local row whose lower-cased village no remote row has: a
  remote row replaces a local row of equal key, also when the two villages differ in
  letter case. With local (Kadapa, Kadapa M) and remote (Kadapa, Kadapa New M) the
  mapping resolves Kadapa to Kadapa New M, and so it does with remote
  (KADAPA, Kadapa New M).
\<close>

theorem merged_remote_wins:
  assumes "normalise_rows rs = Inr supa"
  shows "build_mapping lower True local (Resolved False (Rows rs)) = Inr (merged lower local supa) \<and>
         map (\<lambda>r. lower (village r)) (merged lower local supa)
           = new_Set (map (\<lambda>r. lower (village r)) (local @ supa)) \<and>
         distinct (map (\<lambda>r. lower (village r)) (merged lower local supa)) \<and>
         (\<forall>k. find (\<lambda>r. lower (village r) = k) (merged lower local supa) =
                (case find (\<lambda>r. lower (village r) = k) (rev supa) of
                   Some r \<Rightarrow> Some r
                 | None \<Rightarrow> find (\<lambda>r. lower (village r) = k) (rev local))) \<and>
         list_all (\<lambda>r. r \<in> set supa \<or>
                     r \<in> set local \<and> lower (village r) \<notin> (\<lambda>s. lower (village s)) ` set supa)
           (merged lower local supa)"
  using assms
  by (simp add: build_mapping_success merged_lower_keys distinct_new_Set merged_lower_find
      list_all_iff merged_members del: set_map)

lemma trim_units_KADAPA: "trim (units ''KADAPA'') = units ''KADAPA''"
  by (simp add: trim_def trimStart_def trimEnd_def is_space_def units_simps)

theorem merged_remote_wins_witness:
  "normalise_rows kadapa_remote_upper
     = Inr [\<lparr>village = units ''KADAPA'', mandal = units ''Kadapa New M''\<rparr>] \<and>
   toLowerCase (units ''Kadapa'') = units ''kadapa'' \<and>
   toLowerCase (units ''KADAPA'') = units ''kadapa'' \<and>
   build_mapping toLowerCase True kadapa_local (Resolved False (Rows kadapa_remote_upper))
     = Inr [\<lparr>village = units ''KADAPA'', mandal = units ''Kadapa New M''\<rparr>] \<and>
   find (\<lambda>r. toLowerCase (village r) = units ''kadapa'')
       [\<lparr>village = units ''KADAPA'', mandal = units ''Kadapa New M''\<rparr>]
     = Some \<lparr>village = units ''KADAPA'', mandal = units ''Kadapa New M''\<rparr> \<and>
   build_mapping toLowerCase True kadapa_local (Resolved False (Rows kadapa_remote))
     = Inr [\<lparr>village = units ''Kadapa'', mandal = units ''Kadapa New M''\<rparr>] \<and>
   find_village [\<lparr>village = units ''Kadapa'', mandal = units ''Kadapa New M''\<rparr>] (units ''Kadapa'')
     = Some \<lparr>village = units ''Kadapa'', mandal = units ''Kadapa New M''\<rparr>"
proof -
  have n: "normalise_rows kadapa_remote_upper
             = Inr [\<lparr>village = units ''KADAPA'', mandal = units ''Kadapa New M''\<rparr>]"
    by (simp add: kadapa_remote_upper_def trim_units_Kadapa trim_units_KADAPA)
  have n': "normalise_rows kadapa_remote
             = Inr [\<lparr>village = units ''Kadapa'', mandal = units ''Kadapa New M''\<rparr>]"
    by (simp add: kadapa_remote_def trim_units_Kadapa)
  have l: "toLowerCase (units ''Kadapa'') = units ''kadapa''"
    "toLowerCase (units ''KADAPA'') = units ''kadapa''"
    by (simp_all add: toLowerCase_def lower_unit_def units_simps)
  have m: "merged toLowerCase kadapa_local
             [\<lparr>village = units ''KADAPA'', mandal = units ''Kadapa New M''\<rparr>]
           = [\<lparr>village = units ''KADAPA'', mandal = units ''Kadapa New M''\<rparr>]"
    by (simp add: merged_def set_all_def entries_def map_values_def kadapa_local_def
        village_key_def l)
  have m': "merged toLowerCase kadapa_local
             [\<lparr>village = units ''Kadapa'', mandal = units ''Kadapa New M''\<rparr>]
           = [\<lparr>village = units ''Kadapa'', mandal = units ''Kadapa New M''\<rparr>]"
    by (simp add: merged_def set_all_def entries_def map_values_def kadapa_local_def village_key_def)
  show ?thesis
    using n l m m' merged_remote_wins [OF n, of toLowerCase kadapa_local]
      merged_remote_wins [OF n', of toLowerCase kadapa_local]
    by (simp add: find_village_def)
qed



section \<open>Trimmed and non-empty fields\<close>

lemma trimStart_eq_Nil: "trimStart s = [] \<longleftrightarrow> (\<forall>c \<in> set s. is_space c)"
  by (simp add: trimStart_def dropWhile_eq_Nil_conv)

lemma trimEnd_eq_Nil: "trimEnd s = [] \<longleftrightarrow> (\<forall>c \<in> set s. is_space c)"
  by (simp add: trimEnd_def dropWhile_eq_Nil_conv)

lemma set_trimStart: "set (trimStart s) \<subseteq> set s"
  by (simp add: trimStart_def set_dropWhileD subsetI)

lemma trim_eq_Nil: "trim s = [] \<longleftrightarrow> (\<forall>c \<in> set s. is_space c)"
proof
  assume "trim s = []"
  then have "\<forall>c \<in> set (trimStart s). is_space c"
    by (simp add: trim_def trimEnd_eq_Nil)
  then have "trimStart s = []"
    unfolding trimStart_def by (metis hd_dropWhile hd_in_set)
  then show "\<forall>c \<in> set s. is_space c"
    by (simp add: trimStart_eq_Nil)
next
  assume "\<forall>c \<in> set s. is_space c"
  then have "trimStart s = []"
    by (simp add: trimStart_eq_Nil)
  then show "trim s = []"
    by (simp add: trim_def trimEnd_def)
qed

lemma trimStart_self: "s \<noteq> [] \<Longrightarrow> \<not> is_space (hd s) \<Longrightarrow> trimStart s = s"
  by (cases s) (simp_all add: trimStart_def)

lemma trimEnd_self: "s \<noteq> [] \<Longrightarrow> \<not> is_space (last s) \<Longrightarrow> trimEnd s = s"
  by (cases s rule: rev_cases) (simp_all add: trimEnd_def)

lemma last_dropWhile: "dropWhile P xs \<noteq> [] \<Longrightarrow> last (dropWhile P xs) = last xs"
  by (induction xs) (auto split: if_splits)

lemma trim_ends:
  assumes "trim s \<noteq> []"
  shows "\<not> is_space (hd (trim s))" and "\<not> is_space (last (trim s))"
proof -
  let ?t = "trimStart s"
  let ?u = "dropWhile is_space (rev ?t)"
  have u: "?u \<noteq> []" and tu: "trim s = rev ?u"
    using assms by (simp_all add: trim_def trimEnd_def)
  then have t: "?t \<noteq> []" by auto
  have "\<not> is_space (hd ?u)"
    using u by (rule hd_dropWhile)
  then show "\<not> is_space (last (trim s))"
    using u by (simp add: tu last_rev)
  have "last ?u = last (rev ?t)"
    using u by (rule last_dropWhile)
  also have "\<dots> = hd ?t"
    using t by (simp add: last_rev)
  finally have "hd (trim s) = hd ?t"
    using u by (simp add: tu hd_rev)
  moreover have "\<not> is_space (hd ?t)"
    using t unfolding trimStart_def by (rule hd_dropWhile)
  ultimately show "\<not> is_space (hd (trim s))" by simp
qed

lemma trim_self: "s \<noteq> [] \<Longrightarrow> \<not> is_space (hd s) \<Longrightarrow> \<not> is_space (last s) \<Longrightarrow> trim s = s"
  by (simp add: trim_def trimStart_self trimEnd_self)

lemma trim_Nil: "trim [] = []"
  by (simp add: trim_def trimStart_def trimEnd_def)

lemma trim_idem: "trim (trim s) = trim s"
  by (cases "trim s = []") (simp_all add: trim_Nil trim_ends trim_self)

lemma parse_line_Some:
  assumes "parse_line line = Some r"
  shows "village r \<noteq> [] \<and> mandal r \<noteq> [] \<and> trim (village r) = village r \<and> trim (mandal r) = mandal r"
  using assms
  by (auto simp: parse_line_def Let_def trim_idem split: if_splits option.splits)

lemma in_set_map_filter: "y \<in> set (List.map_filter f xs) \<longleftrightarrow> (\<exists>x \<in> set xs. f x = Some y)"
  by (induction xs) (auto simp: List.map_filter_simps split: option.splits)

lemma parseCSV_rows:
  assumes "r \<in> set (parseCSV csv)"
  shows "village r \<noteq> [] \<and> mandal r \<noteq> [] \<and> trim (village r) = village r \<and> trim (mandal r) = mandal r"
proof -
  from assms obtain line where "parse_line line = Some r"
    by (auto simp: parseCSV_def in_set_map_filter)
  then show ?thesis by (rule parse_line_Some)
qed

lemma normalise_rows_trimmed:
  "normalise_rows rs = Inr supa \<Longrightarrow> r \<in> set supa \<Longrightarrow>
     trim (village r) = village r \<and> trim (mandal r) = mandal r"
proof (induction rs arbitrary: supa)
  case Nil
  then show ?case by simp
next
  case (Cons a rs)
  then show ?case
    by (cases a) (auto simp: trim_idem split: sum.splits)
qed


lemmas trim_simps = trim_def trimStart_def trimEnd_def is_space_def
lemmas parse_simps = parseCSV_def parse_line_def header_test_def same_letters_def fold_ascii_def
  List.map_filter_simps Let_def

lemma parseCSV_kadapa_csv:
  "parseCSV kadapa_csv = [\<lparr>village = units ''Kadapa'', mandal = units ''Kadapa M''\<rparr>]"
  by (simp add: kadapa_csv_def units_simps parse_simps trim_simps)

text \<open>
  Every record of the built mapping has a village and a mandal that are already trimmed.
  A record of the mapping is a row of the local parse, and then both are non-empty, or it
  is a normalised row of a successful fetch. All rows of the local parse, and so all
  records of the local-only mapping, have a village and a mandal that are non-empty
  after trimming.
\<close>

lemma mapping_records_trimmed:
  assumes "load_mapping lower hasSupabaseEnv villagesCSV outcome = Inr m" and "r \<in> set m"
  shows "trim (village r) = village r \<and> trim (mandal r) = mandal r \<and>
         (r \<in> set (parseCSV villagesCSV) \<and> village r \<noteq> [] \<and> mandal r \<noteq> [] \<or>
          hasSupabaseEnv \<and>
          (\<exists>rs supa. outcome = Resolved False (Rows rs) \<and> normalise_rows rs = Inr supa \<and>
             r \<in> set supa)) \<and>
         list_all (\<lambda>l. trim (village l) \<noteq> [] \<and> trim (mandal l) \<noteq> []) (parseCSV villagesCSV)"
proof -
  let ?local = "parseCSV villagesCSV"
  have local: "l \<in> set ?local \<Longrightarrow>
      village l \<noteq> [] \<and> mandal l \<noteq> [] \<and> trim (village l) = village l \<and> trim (mandal l) = mandal l"
    for l by (rule parseCSV_rows)
  have "r \<in> set ?local \<or>
        hasSupabaseEnv \<and>
          (\<exists>rs supa. outcome = Resolved False (Rows rs) \<and> normalise_rows rs = Inr supa \<and>
             r \<in> set supa)"
  proof (cases "m = uniq lower ?local")
    case True
    with assms(2) set_uniq [of lower ?local] show ?thesis by auto
  next
    case False
    with assms(1) have env: hasSupabaseEnv and t: "try_body lower ?local outcome = Inr m"
      by (auto simp: load_mapping_def build_mapping_def split: if_splits sum.splits)
    from t False obtain rs supa where "outcome = Resolved False (Rows rs)"
      and "normalise_rows rs = Inr supa" and "m = merged lower ?local supa"
      by (auto simp: try_body_def merged_no_remote
          split: fetch_outcome.splits remote_data.splits if_splits sum.splits)
    with assms(2) set_merged [of lower ?local supa] env show ?thesis by auto
  qed
  then show ?thesis
    using local normalise_rows_trimmed [of _ _ r] by (auto simp: list_all_iff)
qed

text \<open>
  C9. The rows of the local parse have a non-empty village and mandal
  (\<open>parseCSV_rows\<close>), but the rows of the remote table are merged without that check: a
  remote row without a village becomes a record of the mapping whose village is the empty
  string.
\<close>

theorem remote_record_with_empty_village:
  "load_mapping toLowerCase True kadapa_csv (Resolved False (Rows nameless_remote))
     = Inr [\<lparr>village = units ''Kadapa'', mandal = units ''Kadapa M''\<rparr>,
            \<lparr>village = [], mandal = units ''Kadapa M''\<rparr>] \<and>
   trim (village \<lparr>village = [], mandal = units ''Kadapa M''\<rparr>) = []"
  by (simp add: load_mapping_def parseCSV_kadapa_csv build_mapping_def try_body_def
      nameless_remote_def merged_def set_all_def entries_def map_values_def eval_simps trim_simps)

section \<open>The parse of the bundled table\<close>

lemma comma_not_space: "\<not> is_space 0x002C"
  by (simp add: is_space_def)

lemma is_space_fold_ascii: "is_space c \<Longrightarrow> fold_ascii c = c"
  by (auto simp: is_space_def fold_ascii_def word_le_nat_alt)

lemma lastIndexOf_None: "lastIndexOf s c = None \<longleftrightarrow> c \<notin> set s"
  by (induction s) (auto split: option.splits)

lemma lastIndexOf_Some:
  "lastIndexOf s c = Some i \<Longrightarrow> s = take i s @ [c] @ drop (Suc i) s \<and> c \<notin> set (drop (Suc i) s)"
  by (induction s arbitrary: i) (auto split: option.splits if_splits simp: lastIndexOf_None)

lemma split_last_comma_None:
  assumes "0x002C \<notin> set l"
  shows "split_last_comma l = None"
proof -
  have "takeWhile (\<lambda>c. c \<noteq> 0x002C) (rev l) = rev l"
    using assms by (auto simp: takeWhile_eq_all_conv)
  then have len: "length (rev (takeWhile (\<lambda>c. c \<noteq> 0x002C) (rev l))) = length l"
    by (simp only: length_rev)
  show ?thesis
    unfolding split_last_comma_def Let_def len by simp
qed

lemma split_last_comma_Some:
  assumes "0x002C \<notin> set b"
  shows "split_last_comma (a @ [0x002C] @ b) = Some (a, b)"
proof -
  have "takeWhile (\<lambda>c. c \<noteq> 0x002C) (rev b @ 0x002C # rev a) = rev b"
    using assms by (auto simp: takeWhile_tail)
  then show ?thesis
    by (simp add: split_last_comma_def)
qed

text \<open>A line is its trimmed part between two runs of white space.\<close>

lemma trim_decompose:
  "\<exists>p q. l = p @ trim l @ q \<and> list_all is_space p \<and> list_all is_space q"
proof -
  let ?t = "dropWhile is_space l"
  let ?q = "rev (takeWhile is_space (rev ?t))"
  have "rev (takeWhile is_space (rev ?t) @ dropWhile is_space (rev ?t)) = ?t"
    by (simp only: takeWhile_dropWhile_id rev_rev_ident)
  then have "rev (dropWhile is_space (rev ?t)) @ ?q = ?t"
    by (simp only: rev_append)
  then have t: "?t = trim l @ ?q"
    by (simp only: trim_def trimStart_def trimEnd_def)
  have "l = takeWhile is_space l @ ?t" by simp
  with t have "l = takeWhile is_space l @ trim l @ ?q" by simp
  moreover have "list_all is_space (takeWhile is_space l)"
    by (auto simp: list_all_iff dest: set_takeWhileD)
  moreover have "list_all is_space ?q"
    by (auto simp: list_all_iff dest: set_takeWhileD)
  ultimately show ?thesis by blast
qed

lemma trim_space_prefix: "list_all is_space p \<Longrightarrow> trim (p @ s) = trim s"
  by (auto simp: trim_def trimStart_def list_all_iff)

lemma trimEnd_space_suffix:
  assumes "list_all is_space q"
  shows "trimEnd (s @ q) = trimEnd s"
proof -
  have "dropWhile is_space (rev q @ rev s) = dropWhile is_space (rev s)"
    by (rule dropWhile_append2) (use assms in \<open>simp add: list_all_iff\<close>)
  then show ?thesis
    by (simp add: trimEnd_def)
qed

lemma trim_space_suffix:
  assumes "list_all is_space q"
  shows "trim (s @ q) = trim s"
proof (cases "list_all is_space s")
  case True
  with assms have "trim (s @ q) = []" and "trim s = []"
    by (auto simp: trim_eq_Nil list_all_iff)
  then show ?thesis by simp
next
  case False
  then have "trimStart (s @ q) = trimStart s @ q"
    by (auto simp: trimStart_def list_all_iff)
  with assms show ?thesis
    by (simp add: trim_def trimEnd_space_suffix)
qed


lemma split_agrees:
  assumes "l = p @ ln @ q" and "list_all is_space p" and "list_all is_space q"
  shows "(case lastIndexOf ln 0x002C of
            None \<Rightarrow> None
          | Some idx \<Rightarrow> Some (trim (take idx ln), trim (drop (idx + 1) ln)))
         = map_option (\<lambda>(a, b). (trim a, trim b)) (split_last_comma l)"
proof (cases "lastIndexOf ln 0x002C")
  case None
  then have "0x002C \<notin> set ln" by (simp add: lastIndexOf_None)
  moreover have "0x002C \<notin> set p" "0x002C \<notin> set q"
    using assms(2,3) comma_not_space by (auto simp: list_all_iff)
  ultimately have "0x002C \<notin> set l" by (simp add: assms(1))
  with None show ?thesis by (simp add: split_last_comma_None)
next
  case (Some idx)
  let ?a = "take idx ln" and ?b = "drop (Suc idx) ln"
  from lastIndexOf_Some [OF Some] have ln: "ln = ?a @ [0x002C] @ ?b" and nb: "0x002C \<notin> set ?b"
    by simp_all
  have "0x002C \<notin> set q"
    using assms(3) comma_not_space by (auto simp: list_all_iff)
  with nb have "0x002C \<notin> set (?b @ q)" by simp
  then have "split_last_comma ((p @ ?a) @ [0x002C] @ (?b @ q)) = Some (p @ ?a, ?b @ q)"
    by (rule split_last_comma_Some)
  moreover have "l = (p @ ?a) @ [0x002C] @ (?b @ q)"
    using assms(1) ln by (metis append.assoc)
  ultimately have "split_last_comma l = Some (p @ ?a, ?b @ q)" by simp
  with Some assms(2,3) show ?thesis
    by (simp add: trim_space_prefix trim_space_suffix)
qed

lemma same_letters_length: "same_letters p s \<Longrightarrow> length s = length p"
  unfolding same_letters_def units_def
  by (drule map_eq_imp_length_eq) simp

lemma not_space_if_folds_to:
  assumes "fold_ascii c = x" and "\<not> is_space x"
  shows "\<not> is_space c"
  using assms is_space_fold_ascii [of c] by auto

lemma same_letters_Village:
  assumes "same_letters ''Village'' v"
  shows "length v = 7" and "v \<noteq> []" and "\<not> is_space (hd v)"
proof -
  show len: "length v = 7"
    using same_letters_length [OF assms] by simp
  then show ne: "v \<noteq> []" by auto
  have "hd (map fold_ascii v) = hd (map fold_ascii (units ''Village''))"
    using assms by (simp add: same_letters_def)
  then have "fold_ascii (hd v) = 0x0056"
    using ne by (simp add: hd_map units_simps fold_ascii_def)
  then show "\<not> is_space (hd v)"
    by (rule not_space_if_folds_to) (simp add: is_space_def)
qed

lemma same_letters_Mandal:
  assumes "same_letters ''Mandal'' m"
  shows "m \<noteq> []" and "\<not> is_space (hd m)" and "\<not> is_space (last m)"
proof -
  have "length m = 6"
    using same_letters_length [OF assms] by simp
  then show ne: "m \<noteq> []" by auto
  have eq: "map fold_ascii m = map fold_ascii (units ''Mandal'')"
    using assms by (simp add: same_letters_def)
  from eq have "hd (map fold_ascii m) = hd (map fold_ascii (units ''Mandal''))" by simp
  then have "fold_ascii (hd m) = 0x004D"
    using ne by (simp add: hd_map units_simps fold_ascii_def)
  then show "\<not> is_space (hd m)"
    by (rule not_space_if_folds_to) (simp add: is_space_def)
  from eq have "last (map fold_ascii m) = last (map fold_ascii (units ''Mandal''))" by simp
  then have "fold_ascii (last m) = 0x004C"
    using ne by (simp add: last_map units_simps fold_ascii_def)
  then show "\<not> is_space (last m)"
    by (rule not_space_if_folds_to) (simp add: is_space_def)
qed

text \<open>The shape that the test accepts.\<close>

lemma header_test_iff:
  "header_test ln \<longleftrightarrow>
     (\<exists>v b c m. ln = v @ b @ [0x002C] @ c @ m \<and> list_all is_space b \<and> list_all is_space c \<and>
        same_letters ''Village'' v \<and> same_letters ''Mandal'' m)"
proof
  assume h: "header_test ln"
  let ?r = "drop 7 ln"
  from h have v: "same_letters ''Village'' (take 7 ln)"
    by (simp add: header_test_def)
  from h obtain r where r: "dropWhile is_space ?r = 0x002C # r"
    and m: "same_letters ''Mandal'' (dropWhile is_space r)"
    by (auto simp: header_test_def split: list.splits)
  have "ln = take 7 ln @ ?r" by simp
  also have "?r = takeWhile is_space ?r @ dropWhile is_space ?r" by simp
  also have "dropWhile is_space ?r = [0x002C] @ takeWhile is_space r @ dropWhile is_space r"
    by (simp add: r)
  finally have "ln = take 7 ln @ takeWhile is_space ?r @ [0x002C] @ takeWhile is_space r
                       @ dropWhile is_space r" .
  moreover have "list_all is_space (takeWhile is_space ?r)"
    by (auto simp: list_all_iff dest: set_takeWhileD)
  moreover have "list_all is_space (takeWhile is_space r)"
    by (auto simp: list_all_iff dest: set_takeWhileD)
  ultimately show "\<exists>v b c m. ln = v @ b @ [0x002C] @ c @ m \<and> list_all is_space b \<and>
      list_all is_space c \<and> same_letters ''Village'' v \<and> same_letters ''Mandal'' m"
    using v m by blast
next
  assume "\<exists>v b c m. ln = v @ b @ [0x002C] @ c @ m \<and> list_all is_space b \<and>
      list_all is_space c \<and> same_letters ''Village'' v \<and> same_letters ''Mandal'' m"
  then obtain v b c m where ln: "ln = v @ b @ [0x002C] @ c @ m"
    and b: "list_all is_space b" and c: "list_all is_space c"
    and v: "same_letters ''Village'' v" and m: "same_letters ''Mandal'' m"
    by blast
  have tk: "take 7 ln = v" and dr: "drop 7 ln = b @ [0x002C] @ c @ m"
    using same_letters_Village(1) [OF v] by (simp_all add: ln)
  have "dropWhile is_space (b @ [0x002C] @ c @ m) = dropWhile is_space ([0x002C] @ c @ m)"
    by (rule dropWhile_append2) (use b in \<open>simp add: list_all_iff\<close>)
  then have d1: "dropWhile is_space (drop 7 ln) = 0x002C # c @ m"
    by (simp add: dr comma_not_space)
  have "dropWhile is_space (c @ m) = dropWhile is_space m"
    by (rule dropWhile_append2) (use c in \<open>simp add: list_all_iff\<close>)
  also have "\<dots> = m"
    using same_letters_Mandal(1,2) [OF m] by (cases m) simp_all
  finally have d2: "dropWhile is_space (c @ m) = m" .
  show "header_test ln"
    by (simp add: header_test_def tk d1 d2 v m)
qed

lemma header_test_trim: "header_test (trim l) \<longleftrightarrow> header_line l"
proof
  assume "header_test (trim l)"
  then obtain v b c m where t: "trim l = v @ b @ [0x002C] @ c @ m"
    and *: "list_all is_space b" "list_all is_space c"
      "same_letters ''Village'' v" "same_letters ''Mandal'' m"
    unfolding header_test_iff by blast
  obtain p q where "l = p @ trim l @ q" and **: "list_all is_space p" "list_all is_space q"
    using trim_decompose by blast
  with t have "l = p @ v @ b @ [0x002C] @ c @ m @ q" by simp
  with * ** show "header_line l"
    unfolding header_line_def by blast
next
  assume "header_line l"
  then obtain a v b c m d where l: "l = a @ v @ b @ [0x002C] @ c @ m @ d"
    and a: "list_all is_space a" and d: "list_all is_space d"
    and *: "list_all is_space b" "list_all is_space c"
      "same_letters ''Village'' v" "same_letters ''Mandal'' m"
    unfolding header_line_def by blast
  let ?x = "v @ b @ [0x002C] @ c @ m"
  have "l = a @ ?x @ d" by (simp add: l)
  then have "trim l = trim ?x"
    using a d by (simp only: trim_space_prefix trim_space_suffix)
  also have "trim ?x = ?x"
  proof (rule trim_self)
    show "?x \<noteq> []" by simp
    show "\<not> is_space (hd ?x)"
      using same_letters_Village(2,3) [OF *(3)] by simp
    show "\<not> is_space (last ?x)"
      using same_letters_Mandal(1,3) [OF *(4)] by simp
  qed
  finally show "header_test (trim l)"
    unfolding header_test_iff using * by blast
qed

lemma blank_line_trim: "trim l = [] \<longleftrightarrow> blank_line l"
  by (simp add: trim_eq_Nil blank_line_def list_all_iff)

lemma parse_line_spec:
  "parse_line l = (if blank_line l \<or> header_line l then None else spec_row l)"
proof (cases "blank_line l \<or> header_line l")
  case True
  then show ?thesis
    by (auto simp: parse_line_def Let_def blank_line_trim header_test_trim)
next
  case False
  obtain p q where "l = p @ trim l @ q" "list_all is_space p" "list_all is_space q"
    using trim_decompose by blast
  note split = split_agrees [OF this]
  have "parse_line l =
          (case (case lastIndexOf (trim l) 0x002C of
                   None \<Rightarrow> None
                 | Some idx \<Rightarrow> Some (trim (take idx (trim l)), trim (drop (idx + 1) (trim l)))) of
             None \<Rightarrow> None
           | Some (v, m) \<Rightarrow>
               if v \<noteq> [] \<and> m \<noteq> [] then Some \<lparr>village = v, mandal = m\<rparr> else None)"
    using False
    by (simp add: parse_line_def Let_def blank_line_trim header_test_trim split: option.splits)
  also have "\<dots> = spec_row l"
    unfolding split spec_row_def by (simp split: option.splits)
  finally show ?thesis
    using False by simp
qed

lemma map_filter_filter:
  "List.map_filter f (filter P xs) = List.map_filter (\<lambda>x. if P x then f x else None) xs"
  by (induction xs) (simp_all add: List.map_filter_simps split: option.splits)

lemma lf_lines_not_Nil: "lf_lines csv \<noteq> []"
  by (induction csv) (auto split: list.splits)

lemma split_lines_not_Nil: "split_lines csv \<noteq> []"
  by (induction csv rule: split_lines.induct) (auto split: list.splits)

lemma join_lines_Cons: "join_lines ((c # l) # ls) = c # join_lines (l # ls)"
  by (cases ls) simp_all

lemma join_lf_lines: "join_lines (lf_lines csv) = csv"
  by (induction csv) (auto simp: join_lines_Cons lf_lines_not_Nil split: list.splits)

lemma lf_lines_no_LF: "l \<in> set (lf_lines csv) \<Longrightarrow> 0x000A \<notin> set l"
  by (induction csv arbitrary: l) (auto split: if_splits list.splits)

lemma lf_lines_append_LF:
  "0x000A \<notin> set l \<Longrightarrow> lf_lines (l @ 0x000A # rest) = l # lf_lines rest"
  by (induction l) auto

lemma lf_lines_single: "0x000A \<notin> set l \<Longrightarrow> lf_lines l = [l]"
  by (induction l) auto

lemma lf_lines_unique:
  assumes "ls \<noteq> []" and "\<forall>l \<in> set ls. 0x000A \<notin> set l"
  shows "lf_lines (join_lines ls) = ls"
  using assms
  by (induction ls rule: join_lines.induct) (simp_all add: lf_lines_single lf_lines_append_LF)

lemma parse_line_trailing_CR: "parse_line (l @ [0x000D]) = parse_line l"
proof -
  have "list_all is_space [0x000D]"
    by (simp add: is_space_def)
  then have "trim (l @ [0x000D]) = trim l"
    by (rule trim_space_suffix)
  then show ?thesis
    by (simp add: parse_line_def)
qed

text \<open>
  The lines of the code are the lines between line feeds, less one carriage return at
  the end of each line but the last.
\<close>

lemma lf_lines_empty_first:
  "lf_lines cs = [] # x # xs \<Longrightarrow> take 1 cs = [0x000A]"
  by (cases cs) (auto split: if_splits list.splits)

lemma chop_CR_Cons: "l \<noteq> [] \<Longrightarrow> chop_CR (c # l) = c # chop_CR l"
  by (simp add: chop_CR_def)

lemma split_lines_eq:
  "split_lines csv = map chop_CR (butlast (lf_lines csv)) @ [last (lf_lines csv)]"
proof (induction csv rule: split_lines.induct)
  case 1
  then show ?case by simp
next
  case (2 c cs)
  show ?case
  proof (cases "c = 0x000A")
    case True
    with 2(1) show ?thesis
      by (simp add: lf_lines_not_Nil chop_CR_def)
  next
    case nl: False
    show ?thesis
    proof (cases "c = 0x000D \<and> take 1 cs = [0x000A]")
      case True
      then obtain cs' where cs: "cs = 0x000A # cs'"
        by (cases cs) auto
      from 2(2) [OF nl True] cs
      have "split_lines cs' = map chop_CR (butlast (lf_lines cs')) @ [last (lf_lines cs')]"
        by simp
      with True cs show ?thesis
        by (simp add: lf_lines_not_Nil chop_CR_def)
    next
      case False
      from 2(3) [OF nl False]
      have ih: "split_lines cs = map chop_CR (butlast (lf_lines cs)) @ [last (lf_lines cs)]" .
      obtain l' ls' where f: "lf_lines cs = l' # ls'"
        using lf_lines_not_Nil [of cs] by (cases "lf_lines cs") auto
      show ?thesis
      proof (cases ls')
        case Nil
        with ih f nl False show ?thesis by simp
      next
        case (Cons x xs)
        have "chop_CR (c # l') = c # chop_CR l'"
        proof (cases l')
          case Nil
          with f Cons have "take 1 cs = [0x000A]"
            by (auto dest: lf_lines_empty_first)
          with False have "c \<noteq> 0x000D" by simp
          with Nil show ?thesis by (simp add: chop_CR_def)
        next
          case (Cons y ys)
          then show ?thesis by (simp add: chop_CR_Cons)
        qed
        with ih f Cons nl False show ?thesis by simp
      qed
    qed
  qed
qed

lemma parse_line_chop_CR: "parse_line (chop_CR l) = parse_line l"
proof (cases "l \<noteq> [] \<and> last l = 0x000D")
  case True
  then have "l = butlast l @ [0x000D]"
    by (metis append_butlast_last_id)
  then have "parse_line l = parse_line (butlast l @ [0x000D])" by simp
  with True show ?thesis
    by (simp add: chop_CR_def parse_line_trailing_CR)
next
  case False
  then show ?thesis by (auto simp: chop_CR_def)
qed

lemma map_filter_append:
  "List.map_filter f (xs @ ys) = List.map_filter f xs @ List.map_filter f ys"
  by (simp add: List.map_filter_def)

lemma map_filter_map_same:
  "(\<And>x. f (g x) = f x) \<Longrightarrow> List.map_filter f (map g xs) = List.map_filter f xs"
  by (induction xs) (simp_all add: List.map_filter_simps split: option.splits)

lemma parseCSV_lf_lines: "parseCSV csv = List.map_filter parse_line (lf_lines csv)"
proof -
  have "parseCSV csv =
          List.map_filter parse_line (butlast (lf_lines csv))
            @ List.map_filter parse_line [last (lf_lines csv)]"
    by (simp only: parseCSV_def split_lines_eq map_filter_append
        map_filter_map_same [of parse_line chop_CR, OF parse_line_chop_CR])
  also have "\<dots> = List.map_filter parse_line (butlast (lf_lines csv) @ [last (lf_lines csv)])"
    by (simp only: map_filter_append)
  also have "butlast (lf_lines csv) @ [last (lf_lines csv)] = lf_lines csv"
    using lf_lines_not_Nil by (rule append_butlast_last_id)
  finally show ?thesis .
qed

lemma parseCSV_table_csv:
  "parseCSV table_csv =
     [\<lparr>village = units ''Anantapur'', mandal = units ''Anantapur M''\<rparr>,
      \<lparr>village = units ''A, B Village'', mandal = units ''X Mandal''\<rparr>,
      \<lparr>village = units ''Kadapa'', mandal = units ''Kadapa M''\<rparr>]"
  by (simp add: table_csv_def units_simps parse_simps trim_simps)

text \<open>
  C3, as stated, fails: the line \<open>Village,Mandal\<close>, with no space after its comma, is
  not the header \<open>Village, Mandal\<close> and would give the row (Village, Mandal); the code
  takes it for a header and gives no row.
\<close>

theorem comma_without_space_is_header:
  "parseCSV (units ''Village,Mandal'') = [] \<and>
   stated_parse (units ''Village,Mandal'')
     = [\<lparr>village = units ''Village'', mandal = units ''Mandal''\<rparr>] \<and>
   parseCSV (units ''Village,Mandal'') \<noteq> stated_parse (units ''Village,Mandal'')"
proof -
  have p: "parseCSV (units ''Village,Mandal'') = []"
    by (simp add: units_simps parse_simps trim_simps)
  have s: "stated_parse (units ''Village,Mandal'')
     = [\<lparr>village = units ''Village'', mandal = units ''Mandal''\<rparr>]"
    by (simp add: stated_parse_def blank_line_def literal_header_line_def same_letters_def
        fold_ascii_def spec_row_def split_last_comma_def List.map_filter_simps units_simps
        trim_simps)
  show ?thesis
    by (simp add: p s)
qed

text \<open>
  C3, amended. For every text, \<open>parseCSV\<close> gives exactly the rows of the parse
  described above over the lines between line feeds (the code cuts the same lines, less a
  carriage return before the line feed), where a header line is one with any
  white space, or none, on either side of its comma: blank lines and header lines (in any
  letter case) are skipped, every other line is split at its last comma, both parts are
  trimmed, and a row with an empty part is dropped. The line \<open>A, B Village,X Mandal\<close>
  gives the village \<open>A, B Village\<close> and the mandal \<open>X Mandal\<close>; a table of six lines
  ended by line feeds, with and without carriage returns, gives its three rows.
\<close>

theorem parseCSV_spec:
  "parseCSV csv = spec_parse csv \<and>
   split_lines csv = map chop_CR (butlast (lf_lines csv)) @ [last (lf_lines csv)] \<and>
   join_lines (lf_lines csv) = csv \<and>
   list_all (\<lambda>l. 0x000A \<notin> set l) (lf_lines csv) \<and>
   parseCSV (units ''A, B Village,X Mandal'')
     = [\<lparr>village = units ''A, B Village'', mandal = units ''X Mandal''\<rparr>] \<and>
   parseCSV (units ''vILLAGE ,  mandal'') = [] \<and>
   parseCSV table_csv =
     [\<lparr>village = units ''Anantapur'', mandal = units ''Anantapur M''\<rparr>,
      \<lparr>village = units ''A, B Village'', mandal = units ''X Mandal''\<rparr>,
      \<lparr>village = units ''Kadapa'', mandal = units ''Kadapa M''\<rparr>]"
proof -
  have "(\<lambda>l. if \<not> blank_line l \<and> \<not> header_line l then spec_row l else None) = parse_line"
    by (rule ext) (simp add: parse_line_spec)
  then have "parseCSV csv = spec_parse csv"
    by (simp add: parseCSV_lf_lines spec_parse_def map_filter_filter)
  moreover have "list_all (\<lambda>l. 0x000A \<notin> set l) (lf_lines csv)"
    by (simp add: list_all_iff lf_lines_no_LF)
  moreover have "parseCSV (units ''A, B Village,X Mandal'')
     = [\<lparr>village = units ''A, B Village'', mandal = units ''X Mandal''\<rparr>]"
    by (simp add: units_simps parse_simps trim_simps)
  moreover have "parseCSV (units ''vILLAGE ,  mandal'') = []"
    by (simp add: units_simps parse_simps trim_simps)
  ultimately show ?thesis
    using split_lines_eq [of csv] by (simp add: join_lf_lines parseCSV_table_csv)
qed

section \<open>The two selection lists\<close>

lemma str_includes_iff: "str_includes s q \<longleftrightarrow> (\<exists>a b. s = a @ q @ b)"
proof (induction s)
  case Nil
  then show ?case by simp
next
  case (Cons x xs)
  show ?case
  proof
    assume "str_includes (x # xs) q"
    then consider "take (length q) (x # xs) = q" | "str_includes xs q" by auto
    then show "\<exists>a b. x # xs = a @ q @ b"
    proof cases
      case 1
      then have "x # xs = [] @ q @ drop (length q) (x # xs)"
        by (metis append_Nil append_take_drop_id)
      then show ?thesis by blast
    next
      case 2
      with Cons.IH obtain a b where "xs = a @ q @ b" by blast
      then have "x # xs = (x # a) @ q @ b" by simp
      then show ?thesis by blast
    qed
  next
    assume "\<exists>a b. x # xs = a @ q @ b"
    then obtain a b where ab: "x # xs = a @ q @ b" by blast
    show "str_includes (x # xs) q"
    proof (cases a)
      case Nil
      with ab have "take (length q) (x # xs) = q" by simp
      then show ?thesis by simp
    next
      case (Cons y a')
      with ab have "xs = a' @ q @ b" by simp
      with Cons.IH have "str_includes xs q" by blast
      then show ?thesis by simp
    qed
  qed
qed

lemma set_insert_sorted: "set (insert_sorted cmp x xs) = insert x (set xs)"
  by (induction xs) auto

lemma set_array_sort: "set (array_sort cmp xs) = set xs"
  by (induction xs) (simp_all add: array_sort_def set_insert_sorted)

lemma distinct_insert_sorted: "distinct (insert_sorted cmp x xs) \<longleftrightarrow> x \<notin> set xs \<and> distinct xs"
  by (induction xs) (auto simp: set_insert_sorted)

lemma distinct_array_sort: "distinct (array_sort cmp xs) \<longleftrightarrow> distinct xs"
  by (induction xs) (simp_all add: array_sort_def distinct_insert_sorted set_array_sort [unfolded array_sort_def])

lemma sorted_insert_sorted:
  assumes "consistent_comparator cmp" and "sorted_wrt (\<lambda>a b. cmp a b \<le> 0) xs"
  shows "sorted_wrt (\<lambda>a b. cmp a b \<le> 0) (insert_sorted cmp x xs)"
  using assms(2)
proof (induction xs)
  case Nil
  then show ?case by simp
next
  case (Cons y ys)
  from assms(1) have total: "cmp a b \<le> 0 \<or> cmp b a \<le> 0"
    and trans: "cmp a b \<le> 0 \<Longrightarrow> cmp b c \<le> 0 \<Longrightarrow> cmp a c \<le> 0" for a b c
    unfolding consistent_comparator_def by blast+
  show ?case
  proof (cases "cmp x y \<le> 0")
    case True
    with Cons.prems trans show ?thesis by auto
  next
    case False
    with total have "cmp y x \<le> 0" by blast
    with False Cons show ?thesis by (auto simp: set_insert_sorted)
  qed
qed

lemma sorted_array_sort:
  "consistent_comparator cmp \<Longrightarrow> sorted_wrt (\<lambda>a b. cmp a b \<le> 0) (array_sort cmp xs)"
  by (induction xs) (simp_all add: array_sort_def sorted_insert_sorted)

lemma compare_units_le: "compare_units a b \<le> 0 \<longleftrightarrow> a \<le> b"
  by (auto simp: compare_units_def)

lemma compare_units_consistent: "consistent_comparator compare_units"
  unfolding consistent_comparator_def compare_units_le by auto

lemma mandals_list:
  assumes "consistent_comparator cmp"
  shows "distinct (mandals cmp mapping)"
    and "set (mandals cmp mapping) = {m \<in> mandal ` set mapping. m \<noteq> []}"
    and "sorted_wrt (\<lambda>a b. cmp a b \<le> 0) (mandals cmp mapping)"
  using assms
  by (auto simp: mandals_def distinct_array_sort distinct_new_Set set_array_sort set_new_Set
      sorted_array_sort)

lemma villages_list:
  assumes "consistent_comparator cmp"
  shows "distinct (villages cmp mapping sel)"
    and "set (villages cmp mapping sel) = {v \<in> set (villagesSource mapping sel). v \<noteq> []}"
    and "sorted_wrt (\<lambda>a b. cmp a b \<le> 0) (villages cmp mapping sel)"
  using assms
  by (auto simp: villages_def distinct_array_sort distinct_new_Set set_array_sort set_new_Set
      sorted_array_sort)

lemma villagesSource_set:
  "set (villagesSource mapping sel) =
     (if sel \<noteq> [] then {village r | r. r \<in> set mapping \<and> mandal r = sel}
      else village ` set mapping)"
  by (auto simp: villagesSource_def)

lemma filteredVillages_cases:
  "filteredVillages lower cmp mapping sel vFilter =
     (if length (lower (trim vFilter)) \<ge> 3
      then filter (\<lambda>v. \<exists>a b. lower v = a @ lower (trim vFilter) @ b) (villages cmp mapping sel)
      else if sel \<noteq> [] then villages cmp mapping sel
      else [])"
  by (simp add: filteredVillages_def Let_def str_includes_iff)

lemma filteredVillages_length_preserved:
  assumes "length (lower (trim vFilter)) = length (trim vFilter)"
  shows "filteredVillages lower cmp mapping sel vFilter =
     (if length (trim vFilter) \<ge> 3
      then filter (\<lambda>v. \<exists>a b. lower v = a @ lower (trim vFilter) @ b) (villages cmp mapping sel)
      else if sel \<noteq> [] then villages cmp mapping sel
      else [])"
  by (simp add: filteredVillages_cases assms)

lemmas list_simps = array_sort_def new_Set_def set_add_def compare_units_def

lemma mandals_kadapa_mapping:
  "mandals compare_units kadapa_mapping = [units ''Anantapur M'', units ''Kadapa M'']"
  by (simp add: mandals_def kadapa_mapping_def list_simps units_simps)

lemma villages_kadapa_mapping:
  "villages compare_units kadapa_mapping (units ''Kadapa M'') = [units ''Kadapa'']"
  by (simp add: villages_def villagesSource_def kadapa_mapping_def list_simps units_simps)

lemma selectedMandal_kadapa_selected: "selectedMandal kadapa_selected = units ''Kadapa M''"
  by (simp add: selectedMandal_def kadapa_selected_eq trim_simps units_simps)

text \<open>
  C5. For a collation \<open>cmp\<close> that is a consistent comparator, the mandal list holds
  each non-empty mandal of the mapping once, in the order of \<open>cmp\<close>. The displayed list
  is that list narrowed to the mandals whose lower-cased form contains the lower-cased
  trimmed filter when the trimmed filter has at least two code units, and the whole list
  otherwise, so also for a filter of one character.
\<close>

theorem filteredMandals_spec:
  assumes "consistent_comparator cmp"
  shows "distinct (mandals cmp mapping) \<and>
         set (mandals cmp mapping) = {m \<in> mandal ` set mapping. m \<noteq> []} \<and>
         sorted_wrt (\<lambda>a b. cmp a b \<le> 0) (mandals cmp mapping) \<and>
         filteredMandals lower cmp mapping mFilter =
           (if length (trim mFilter) \<ge> 2
            then filter (\<lambda>m. \<exists>a b. lower m = a @ lower (trim mFilter) @ b) (mandals cmp mapping)
            else mandals cmp mapping)"
  using mandals_list [OF assms, of mapping]
  by (simp add: filteredMandals_def str_includes_iff)

theorem filteredMandals_spec_witness:
  "consistent_comparator compare_units \<and>
   mandals compare_units kadapa_mapping = [units ''Anantapur M'', units ''Kadapa M''] \<and>
   distinct [units ''Anantapur M'', units ''Kadapa M''] \<and>
   sorted_wrt (\<lambda>a b. compare_units a b \<le> 0) [units ''Anantapur M'', units ''Kadapa M''] \<and>
   filteredMandals toLowerCase compare_units kadapa_mapping (units ''k'')
     = [units ''Anantapur M'', units ''Kadapa M''] \<and>
   filteredMandals toLowerCase compare_units kadapa_mapping (units '' KA '') = [units ''Kadapa M'']"
proof -
  note th = filteredMandals_spec [OF compare_units_consistent, of kadapa_mapping]
  have "filteredMandals toLowerCase compare_units kadapa_mapping (units ''k'')
     = [units ''Anantapur M'', units ''Kadapa M'']"
    using th [of toLowerCase "units ''k''"]
    by (simp add: mandals_kadapa_mapping trim_simps units_simps)
  moreover have "filteredMandals toLowerCase compare_units kadapa_mapping (units '' KA '')
     = [units ''Kadapa M'']"
    by (simp add: filteredMandals_def mandals_kadapa_mapping trim_simps units_simps
        toLowerCase_def lower_unit_def)
  ultimately show ?thesis
    using th [of toLowerCase "units ''k''"] compare_units_consistent
    by (simp add: mandals_kadapa_mapping)
qed

text \<open>
  C4. The code compares the length of the lower-cased trimmed filter with 3, not the
  length of the trimmed filter. With the mandal Kadapa M selected and the two code units
  U+0130 U+0061 typed, the trimmed filter has length 2, its lower-cased form has length 3,
  and the village list is narrowed to no village instead of showing Kadapa; the hint for
  a search without match, which measures the trimmed filter itself, stays hidden.
  Whenever lower-casing keeps the length of the trimmed filter, the list follows the
  three cases of the specification (\<open>filteredVillages_length_preserved\<close>,
  \<open>villages_list\<close>).
\<close>

theorem village_filter_measured_after_lowercasing:
  "length (trim [0x0130, 0x0061]) = 2 \<and>
   length (toLowerCase (trim [0x0130, 0x0061])) = 3 \<and>
   selectedMandal kadapa_selected = units ''Kadapa M'' \<and>
   villages compare_units kadapa_mapping (selectedMandal kadapa_selected) = [units ''Kadapa''] \<and>
   filteredVillages toLowerCase compare_units kadapa_mapping (selectedMandal kadapa_selected)
     [0x0130, 0x0061] = [] \<and>
   \<not> no_match_hint toLowerCase compare_units kadapa_mapping (selectedMandal kadapa_selected)
     [0x0130, 0x0061]"
proof -
  have t: "trim [0x0130, 0x0061] = [0x0130, 0x0061]"
    by (simp add: trim_simps)
  have q: "toLowerCase [0x0130, 0x0061] = [0x0069, 0x0307, 0x0061]"
    by (simp add: toLowerCase_def lower_unit_def)
  have k: "toLowerCase (units ''Kadapa'') = units ''kadapa''"
    by (simp add: toLowerCase_def lower_unit_def units_simps)
  have f: "filteredVillages toLowerCase compare_units kadapa_mapping (units ''Kadapa M'')
     [0x0130, 0x0061] = []"
    unfolding filteredVillages_def Let_def t q villages_kadapa_mapping
    by (simp add: k) (simp add: units_simps)
  show ?thesis
    unfolding selectedMandal_kadapa_selected
    by (simp add: t q f villages_kadapa_mapping no_match_hint_def)
qed

end
